theory Spec2Isabelle
  imports Main
begin

section \<open>State cells\<close>

text \<open>
  Every component of the repository keeps its state in cells obtained from
  \<^verbatim>\<open>React.useState\<close>. A setter called with a plain value replaces the cell's
  value; called with a function it maps the cell's latest value. A setter does not
  change the value that the running handler sees: the request is queued and takes
  effect when the next render pass begins.
\<close>

datatype 'v update = Value 'v | Updater "'v \<Rightarrow> 'v"

record 'v cell =
  current :: 'v
  pending :: "'v update list"

fun applyUpdate :: "'v \<Rightarrow> 'v update \<Rightarrow> 'v" where
  "applyUpdate old (Value v) = v"
| "applyUpdate old (Updater f) = f old"

text \<open>
  Modelled from the spec: the \<^verbatim>\<open>react\<close> package that implements
  \<^verbatim>\<open>useState\<close> is imported by the sources and is not part of them. The three
  operations below follow the store contract: a cell is created with its initial value
  on the first render, \<^verbatim>\<open>requestUpdate\<close> enqueues without mutating, and
  \<^verbatim>\<open>commitPendingUpdates\<close> applies the queued requests of a cell in FIFO order
  immediately before the next render pass.
\<close>

definition mountCell :: "'v \<Rightarrow> 'v cell" where
  "mountCell initial = \<lparr>current = initial, pending = []\<rparr>"

definition requestUpdate :: "'v cell \<Rightarrow> 'v update \<Rightarrow> 'v cell" where
  "requestUpdate c u = c\<lparr>pending := pending c @ [u]\<rparr>"

definition commitCell :: "'v cell \<Rightarrow> 'v cell" where
  "commitCell c = \<lparr>current = foldl applyUpdate (current c) (pending c), pending = []\<rparr>"

section \<open>The todo example\<close>

text \<open>
  \<^verbatim>\<open>generateId\<close> is \<^verbatim>\<open>"_" + Math.random().toString(36).substr(2, 9)\<close>. The
  parameter \<open>r\<close> is the string that \<^verbatim>\<open>Math.random().toString(36)\<close> produced
  (for instance \<^verbatim>\<open>"0.4fzyo82mv"\<close>, or \<^verbatim>\<open>"0"\<close> when the draw is zero);
  \<^verbatim>\<open>substr(2, 9)\<close> skips two characters and keeps at most nine.
\<close>

definition substr :: "nat \<Rightarrow> nat \<Rightarrow> string \<Rightarrow> string" where
  "substr start len s = take len (drop start s)"

definition generateId :: "string \<Rightarrow> string" where
  "generateId r = ''_'' @ substr 2 9 r"

record todo =
  todo_text :: string
  todo_id :: string

text \<open>The two cells of \<^verbatim>\<open>Todo\<close>, in the order of its two \<^verbatim>\<open>useState\<close> calls.\<close>

record todo_instance =
  todos_cell :: "todo list cell"
  input_cell :: "string cell"

text \<open>What one execution of the body of \<^verbatim>\<open>Todo\<close> reads from its cells.\<close>

record todo_view =
  todos :: "todo list"
  input :: string

definition mountTodo :: todo_instance where
  "mountTodo = \<lparr>todos_cell = mountCell [], input_cell = mountCell ''''\<rparr>"

definition Todo :: "todo_instance \<Rightarrow> todo_view" where
  "Todo inst = \<lparr>todos = current (todos_cell inst), input = current (input_cell inst)\<rparr>"

text \<open>A render pass commits the queued requests and then runs the body.\<close>

definition commitTodo :: "todo_instance \<Rightarrow> todo_instance" where
  "commitTodo inst =
     \<lparr>todos_cell = commitCell (todos_cell inst), input_cell = commitCell (input_cell inst)\<rparr>"

definition renderTodo :: "todo_instance \<Rightarrow> todo_instance \<times> todo_view" where
  "renderTodo inst = (commitTodo inst, Todo (commitTodo inst))"

text \<open>
  The handlers are closures created by a render pass: \<^verbatim>\<open>handleSubmit\<close> reads
  \<^verbatim>\<open>input\<close> from the pass that created it. It ignores the argument it is called
  with. The identifier is drawn when the updater runs; \<open>r\<close> is that draw.
\<close>

definition handleSubmit :: "todo_view \<Rightarrow> string \<Rightarrow> todo_instance \<Rightarrow> todo_instance" where
  "handleSubmit v r inst =
     inst\<lparr>todos_cell := requestUpdate (todos_cell inst)
             (Updater (\<lambda>ts. ts @ [\<lparr>todo_text = input v, todo_id = generateId r\<rparr>])),
          input_cell := requestUpdate (input_cell inst) (Value '''')\<rparr>"

definition removeTodo :: "string \<Rightarrow> todo_instance \<Rightarrow> todo_instance" where
  "removeTodo i inst =
     inst\<lparr>todos_cell := requestUpdate (todos_cell inst)
             (Updater (filter (\<lambda>t. todo_id t \<noteq> i)))\<rparr>"

definition onChange :: "string \<Rightarrow> todo_instance \<Rightarrow> todo_instance" where
  "onChange v inst = inst\<lparr>input_cell := requestUpdate (input_cell inst) (Value v)\<rparr>"

text \<open>
  Adding an item through the interface: the text is typed into the input element
  (\<^verbatim>\<open>onChange\<close>), the component renders, and the Submit button of that pass is
  clicked. Removing an item clicks the \<^verbatim>\<open>x\<close> button of a record.
\<close>

definition addItem :: "string \<Rightarrow> string \<Rightarrow> todo_instance \<Rightarrow> todo_instance" where
  "addItem t r inst =
     (let (inst', v) = renderTodo (onChange t inst) in handleSubmit v r inst')"

definition removeItem :: "string \<Rightarrow> todo_instance \<Rightarrow> todo_instance" where
  "removeItem i inst = removeTodo i (fst (renderTodo inst))"

text \<open>The list and the input text that the next render pass shows.\<close>

definition shownTodos :: "todo_instance \<Rightarrow> todo list" where
  "shownTodos inst = todos (snd (renderTodo inst))"

definition shownInput :: "todo_instance \<Rightarrow> string" where
  "shownInput inst = input (snd (renderTodo inst))"

text \<open>
  Several additions in a row, each with its text and its random draw, and the text
  after trimming as the spec words it. The sources never trim: this function is used
  only to say which texts the spec calls empty.
\<close>

definition addItems :: "(string \<times> string) list \<Rightarrow> todo_instance \<Rightarrow> todo_instance" where
  "addItems calls inst = foldl (\<lambda>i (t, r). addItem t r i) inst calls"

definition isWhiteSpace :: "char \<Rightarrow> bool" where
  "isWhiteSpace c = (c \<in> set [CHR '' '', CHR 0x09, CHR 0x0A, CHR 0x0B, CHR 0x0C, CHR 0x0D])"

definition trim :: "string \<Rightarrow> string" where
  "trim s = rev (dropWhile isWhiteSpace (rev (dropWhile isWhiteSpace s)))"

section \<open>The hover hook\<close>

text \<open>
  \<^verbatim>\<open>useHover\<close> owns one boolean cell and returns the value read in this pass
  together with the two handlers, \<^verbatim>\<open>[hovering, attrs]\<close>.
\<close>

record hover_instance =
  hovering_cell :: "bool cell"

record hover_attrs =
  onMouseOver :: "hover_instance \<Rightarrow> hover_instance"
  onMouseOut :: "hover_instance \<Rightarrow> hover_instance"

definition mountHover :: hover_instance where
  "mountHover = \<lparr>hovering_cell = mountCell False\<rparr>"

definition setHovering :: "bool \<Rightarrow> hover_instance \<Rightarrow> hover_instance" where
  "setHovering b inst = inst\<lparr>hovering_cell := requestUpdate (hovering_cell inst) (Value b)\<rparr>"

definition useHover :: "hover_instance \<Rightarrow> bool \<times> hover_attrs" where
  "useHover inst =
     (let hovering = current (hovering_cell inst);
          mouseOver = setHovering True;
          mouseOut = setHovering False;
          attrs = \<lparr>onMouseOver = mouseOver, onMouseOut = mouseOut\<rparr>
      in (hovering, attrs))"

definition commitHover :: "hover_instance \<Rightarrow> hover_instance" where
  "commitHover inst = \<lparr>hovering_cell = commitCell (hovering_cell inst)\<rparr>"

definition renderHover :: "hover_instance \<Rightarrow> hover_instance \<times> bool \<times> hover_attrs" where
  "renderHover inst = (commitHover inst, useHover (commitHover inst))"

text \<open>The value reported by the next pass, and the handlers that a pass returned.\<close>

definition nextHovering :: "hover_instance \<Rightarrow> bool" where
  "nextHovering inst = fst (snd (renderHover inst))"

definition attrsOf :: "hover_instance \<Rightarrow> hover_attrs" where
  "attrsOf inst = snd (snd (renderHover inst))"

text \<open>
  Modelled from the spec: which cells a call of \<^verbatim>\<open>useState\<close> is given is decided
  by the \<^verbatim>\<open>react\<close> package, which is not part of the sources; by the spec, cells
  are owned by the component instance and never shared. So several mounted components
  that each call \<^verbatim>\<open>useHover\<close>, as \<^verbatim>\<open>Info\<close>, \<^verbatim>\<open>TrendChart\<close> and
  \<^verbatim>\<open>DailyChart\<close> do, are a map from instance numbers to instances, and an event on
  the element of an instance invokes the handler that the pass of that instance returned.
\<close>

datatype hover_event = MouseOver | MouseOut | Render

fun hoverStep :: "hover_event \<Rightarrow> hover_instance \<Rightarrow> hover_instance" where
  "hoverStep MouseOver inst = onMouseOver (attrsOf inst) inst"
| "hoverStep MouseOut inst = onMouseOut (attrsOf inst) inst"
| "hoverStep Render inst = fst (renderHover inst)"

type_synonym hover_system = "nat \<rightharpoonup> hover_instance"

definition dispatch :: "hover_system \<Rightarrow> nat \<times> hover_event \<Rightarrow> hover_system" where
  "dispatch sys e =
     (case sys (fst e) of
        None \<Rightarrow> sys
      | Some inst \<Rightarrow> sys(fst e \<mapsto> hoverStep (snd e) inst))"

definition runEvents :: "hover_system \<Rightarrow> (nat \<times> hover_event) list \<Rightarrow> hover_system" where
  "runEvents sys es = foldl dispatch sys es"

definition observeHovering :: "hover_system \<Rightarrow> nat \<Rightarrow> bool option" where
  "observeHovering sys j = map_option nextHovering (sys j)"

definition eventsOf :: "nat \<Rightarrow> (nat \<times> hover_event) list \<Rightarrow> hover_event list" where
  "eventsOf j es = map snd (filter (\<lambda>e. fst e = j) es)"

section \<open>The theme component\<close>

text \<open>
  \<^verbatim>\<open>Theme\<close> owns one string cell. Its body returns the class name and one
  button; which handler the button carries depends on the value read in that pass.
\<close>

record theme_instance =
  theme_cell :: "string cell"

definition mountTheme :: theme_instance where
  "mountTheme = \<lparr>theme_cell = mountCell ''light''\<rparr>"

definition setTheme :: "string \<Rightarrow> theme_instance \<Rightarrow> theme_instance" where
  "setTheme v inst = inst\<lparr>theme_cell := requestUpdate (theme_cell inst) (Value v)\<rparr>"

definition Theme :: "theme_instance \<Rightarrow> string \<times> (theme_instance \<Rightarrow> theme_instance)" where
  "Theme inst =
     (let theme = current (theme_cell inst)
      in (theme, if theme = ''light'' then setTheme ''dark'' else setTheme ''light''))"

definition commitTheme :: "theme_instance \<Rightarrow> theme_instance" where
  "commitTheme inst = \<lparr>theme_cell = commitCell (theme_cell inst)\<rparr>"

text \<open>
  The mounted component together with what its last pass put on the screen: the class
  name and the button's handler.
\<close>

record theme_ui =
  theme_inst :: theme_instance
  className :: string
  onClick :: "theme_instance \<Rightarrow> theme_instance"

definition renderTheme :: "theme_instance \<Rightarrow> theme_ui" where
  "renderTheme inst =
     (let inst' = commitTheme inst; (theme, handler) = Theme inst'
      in \<lparr>theme_inst = inst', className = theme, onClick = handler\<rparr>)"

datatype theme_event = Click | Rerender

fun themeStep :: "theme_ui \<Rightarrow> theme_event \<Rightarrow> theme_ui" where
  "themeStep ui Click = ui\<lparr>theme_inst := onClick ui (theme_inst ui)\<rparr>"
| "themeStep ui Rerender = renderTheme (theme_inst ui)"

definition themeAfter :: "theme_event list \<Rightarrow> theme_ui" where
  "themeAfter es = foldl themeStep (renderTheme mountTheme) es"

definition otherTheme :: "string \<Rightarrow> string" where
  "otherTheme t = (if t = ''light'' then ''dark'' else ''light'')"

text \<open>
  The invariant of the mounted component: the cell and every queued request hold one of
  the two theme names, the class name on the screen is the value of the cell, and the
  button on the screen sets the other name.
\<close>

definition themeOk :: "theme_ui \<Rightarrow> bool" where
  "themeOk ui =
     ((current (theme_cell (theme_inst ui)) = ''light'' \<or> current (theme_cell (theme_inst ui)) = ''dark'')
      \<and> set (pending (theme_cell (theme_inst ui))) \<subseteq> {Value ''light'', Value ''dark''}
      \<and> className ui = current (theme_cell (theme_inst ui))
      \<and> onClick ui = setTheme (otherTheme (className ui)))"

section \<open>The slot store\<close>











section \<open>The render scheduler\<close>

text \<open>
  Modelled from the spec: no scheduler is part of the sources. The scheduler keeps the
  set of dirty instances, the instances enqueued for the next scheduling turn, the
  instance whose pass is in flight, and, to count them, the number of passes run for
  each instance. \<^verbatim>\<open>scheduleRender\<close> marks the instance dirty and enqueues a pass
  unless one is in flight or already queued. A turn runs one pass for every queue
  entry; completing a pass makes the instance clean.
\<close>

record scheduler =
  dirty :: "nat set"
  queued :: "nat list"
  inFlight :: "nat option"
  passes :: "nat \<Rightarrow> nat"

definition scheduleRender :: "nat \<Rightarrow> scheduler \<Rightarrow> scheduler" where
  "scheduleRender i s =
     (let s' = s\<lparr>dirty := insert i (dirty s)\<rparr>
      in if inFlight s = Some i \<or> i \<in> set (queued s) then s'
         else s'\<lparr>queued := queued s @ [i]\<rparr>)"

definition runQueuedPass :: "nat \<Rightarrow> scheduler \<Rightarrow> scheduler" where
  "runQueuedPass i s =
     (let s1 = s\<lparr>inFlight := Some i\<rparr>;
          s2 = s1\<lparr>passes := (passes s1)(i := passes s1 i + 1), dirty := dirty s1 - {i}\<rparr>
      in s2\<lparr>inFlight := None\<rparr>)"

definition runTurn :: "scheduler \<Rightarrow> scheduler" where
  "runTurn s = fold runQueuedPass (queued s) (s\<lparr>queued := []\<rparr>)"

definition clean :: "nat \<Rightarrow> scheduler \<Rightarrow> bool" where
  "clean i s = (i \<notin> dirty s \<and> i \<notin> set (queued s) \<and> inFlight s \<noteq> Some i)"

definition idleScheduler :: scheduler where
  "idleScheduler = \<lparr>dirty = {}, queued = [], inFlight = None, passes = (\<lambda>_. 0)\<rparr>"

section \<open>Properties of the todo example\<close>

lemma commitCell_requestUpdate:
  "commitCell (requestUpdate c u) =
     \<lparr>current = applyUpdate (current (commitCell c)) u, pending = []\<rparr>"
  by (simp add: commitCell_def requestUpdate_def)

lemma commitCell_idem: "commitCell (commitCell c) = commitCell c"
  by (simp add: commitCell_def)

lemma shownTodos_handleSubmit:
  "shownTodos (handleSubmit v r inst) =
     shownTodos inst @ [\<lparr>todo_text = input v, todo_id = generateId r\<rparr>]"
  by (simp add: shownTodos_def renderTodo_def Todo_def commitTodo_def handleSubmit_def
      commitCell_requestUpdate)

lemma shownTodos_addItem:
  "shownTodos (addItem t r inst) = shownTodos inst @ [\<lparr>todo_text = t, todo_id = generateId r\<rparr>]"
  by (simp add: shownTodos_def renderTodo_def Todo_def commitTodo_def handleSubmit_def
      addItem_def onChange_def commitCell_requestUpdate commitCell_idem)

lemma shownTodos_removeItem:
  "shownTodos (removeItem i inst) = filter (\<lambda>t. todo_id t \<noteq> i) (shownTodos inst)"
  by (simp add: shownTodos_def renderTodo_def Todo_def commitTodo_def removeTodo_def
      removeItem_def commitCell_requestUpdate commitCell_idem)

text \<open>
  C9: every identifier begins with the underscore and continues with at most nine
  characters, which are the characters of the rendered draw from its third on; so its
  length lies between 1 and 10, whatever the random source returned.
\<close>

theorem generateId_shape:
  "hd (generateId r) = CHR ''_'' \<and> tl (generateId r) = take 9 (drop 2 r)
   \<and> length (tl (generateId r)) \<le> 9
   \<and> 1 \<le> length (generateId r) \<and> length (generateId r) \<le> 10"
  by (simp add: generateId_def substr_def)

lemma shownTodos_mountTodo: "shownTodos mountTodo = []"
  by (simp add: shownTodos_def renderTodo_def Todo_def commitTodo_def mountTodo_def
      mountCell_def commitCell_def)

lemma shownInput_handleSubmit: "shownInput (handleSubmit v r inst) = ''''"
  by (simp add: shownInput_def renderTodo_def Todo_def commitTodo_def handleSubmit_def
      commitCell_requestUpdate)

lemma shownTodos_addItems:
  "shownTodos (addItems calls inst) =
     shownTodos inst @ map (\<lambda>(t, r). \<lparr>todo_text = t, todo_id = generateId r\<rparr>) calls"
  unfolding addItems_def
  by (induction calls arbitrary: inst) (auto simp: shownTodos_addItem)

lemma trim_blank: "trim '''' = '''' \<and> trim ''   '' = ''''"
  by (simp add: trim_def isWhiteSpace_def)

text \<open>
  C1, as stated, fails: the sources never trim or test the text. Adding the empty text or
  a text of three spaces to the freshly mounted list appends a record.
\<close>

theorem addItem_blank_counterexample:
  "trim '''' = '''' \<and> trim ''   '' = ''''
   \<and> shownTodos mountTodo = []
   \<and> shownTodos (addItem '''' ''0.4fzyo82mvyr'' mountTodo)
       = [\<lparr>todo_text = '''', todo_id = ''_4fzyo82mv''\<rparr>]
   \<and> length (shownTodos (addItem ''   '' ''0.4fzyo82mvyr'' mountTodo))
       \<noteq> length (shownTodos mountTodo)"
  by (simp add: trim_blank shownTodos_addItem shownTodos_mountTodo generateId_def substr_def)

text \<open>
  C1, amended: every addition appends exactly one record that carries the text as it was
  typed, also when the text is empty or consists of spaces only, so the list grows by
  exactly one.
\<close>

theorem addItem_appends_any_text:
  "shownTodos (addItem t r inst) = shownTodos inst @ [\<lparr>todo_text = t, todo_id = generateId r\<rparr>]
   \<and> length (shownTodos (addItem t r inst)) = Suc (length (shownTodos inst))"
  by (simp add: shownTodos_addItem)

text \<open>
  C8: \<^verbatim>\<open>handleSubmit\<close> does not leave the input cell as it was: besides appending
  the new record to the list, it queues the empty string for the input cell, and the
  next render pass shows an empty input.
\<close>

theorem handleSubmit_resets_input:
  "input_cell (handleSubmit v r inst) \<noteq> input_cell inst
   \<and> pending (input_cell (handleSubmit v r inst)) = pending (input_cell inst) @ [Value '''']
   \<and> shownInput (handleSubmit v r inst) = ''''
   \<and> shownTodos (handleSubmit v r inst)
       = shownTodos inst @ [\<lparr>todo_text = input v, todo_id = generateId r\<rparr>]"
proof -
  have p: "pending (input_cell (handleSubmit v r inst)) = pending (input_cell inst) @ [Value '''']"
    by (simp add: handleSubmit_def requestUpdate_def)
  have "length (pending (input_cell (handleSubmit v r inst))) \<noteq> length (pending (input_cell inst))"
    by (simp add: p)
  then have "input_cell (handleSubmit v r inst) \<noteq> input_cell inst"
    by auto
  then show ?thesis
    by (simp add: p shownInput_handleSubmit shownTodos_handleSubmit)
qed

text \<open>
  C2, as stated, fails on a list in which two records carry the same identifier, which
  two equal draws produce: the removal deletes both records, not the first one only, and
  the length drops by two.
\<close>

theorem removeItem_duplicate_counterexample:
  "shownTodos (addItems [(''a'', ''0''), (''b'', ''0'')] mountTodo)
     = [\<lparr>todo_text = ''a'', todo_id = ''_''\<rparr>, \<lparr>todo_text = ''b'', todo_id = ''_''\<rparr>]
   \<and> shownTodos (removeItem ''_'' (addItems [(''a'', ''0''), (''b'', ''0'')] mountTodo)) = []"
  by (simp add: shownTodos_removeItem shownTodos_addItems shownTodos_mountTodo generateId_def
      substr_def)

lemma filter_absent: "i \<notin> todo_id ` set ts \<Longrightarrow> filter (\<lambda>t. todo_id t \<noteq> i) ts = ts"
  by (induction ts) auto

lemma filter_unique:
  "distinct (map todo_id ts) \<Longrightarrow> i \<in> todo_id ` set ts \<Longrightarrow>
   \<exists>xs t ys. ts = xs @ t # ys \<and> todo_id t = i \<and> i \<notin> todo_id ` set xs
     \<and> filter (\<lambda>t. todo_id t \<noteq> i) ts = xs @ ys"
proof (induction ts)
  case Nil
  then show ?case by simp
next
  case (Cons a ts)
  show ?case
  proof (cases "todo_id a = i")
    case True
    with Cons.prems have "i \<notin> todo_id ` set ts" by auto
    then have "filter (\<lambda>t. todo_id t \<noteq> i) (a # ts) = [] @ ts"
      using True by (simp add: filter_absent)
    moreover have "a # ts = [] @ a # ts" by simp
    ultimately show ?thesis using True by (metis empty_iff image_empty list.set(1))
  next
    case False
    with Cons.prems have "distinct (map todo_id ts)" "i \<in> todo_id ` set ts" by auto
    from Cons.IH[OF this] obtain xs t ys where
      h: "ts = xs @ t # ys" "todo_id t = i" "i \<notin> todo_id ` set xs"
         "filter (\<lambda>t. todo_id t \<noteq> i) ts = xs @ ys" by blast
    have "a # ts = (a # xs) @ t # ys" using h by simp
    moreover have "i \<notin> todo_id ` set (a # xs)" using h False by auto
    moreover have "filter (\<lambda>t. todo_id t \<noteq> i) (a # ts) = (a # xs) @ ys" using h False by simp
    ultimately show ?thesis using h(2) by blast
  qed
qed

text \<open>
  C2, amended: removing an identifier keeps exactly the records with another identifier,
  unchanged and in their order. When no record has the identifier the list is unchanged.
  When the identifiers of the list are distinct and one record has the identifier, that
  record alone is removed and the length decreases by exactly one.
\<close>

theorem removeItem_removes_all_matching:
  "shownTodos (removeItem i inst) = filter (\<lambda>t. todo_id t \<noteq> i) (shownTodos inst)
   \<and> (i \<notin> todo_id ` set (shownTodos inst) \<longrightarrow> shownTodos (removeItem i inst) = shownTodos inst)
   \<and> (distinct (map todo_id (shownTodos inst)) \<and> i \<in> todo_id ` set (shownTodos inst) \<longrightarrow>
        Suc (length (shownTodos (removeItem i inst))) = length (shownTodos inst)
        \<and> (\<exists>xs t ys. shownTodos inst = xs @ t # ys \<and> todo_id t = i
              \<and> i \<notin> todo_id ` set xs
              \<and> shownTodos (removeItem i inst) = xs @ ys))"
proof -
  let ?ts = "shownTodos inst"
  have a: "shownTodos (removeItem i inst) = filter (\<lambda>t. todo_id t \<noteq> i) ?ts"
    by (rule shownTodos_removeItem)
  have b: "i \<notin> todo_id ` set ?ts \<longrightarrow> shownTodos (removeItem i inst) = ?ts"
    by (simp add: a filter_absent)
  have c: "distinct (map todo_id ?ts) \<and> i \<in> todo_id ` set ?ts \<longrightarrow>
        Suc (length (shownTodos (removeItem i inst))) = length ?ts
        \<and> (\<exists>xs t ys. ?ts = xs @ t # ys \<and> todo_id t = i \<and> i \<notin> todo_id ` set xs
              \<and> shownTodos (removeItem i inst) = xs @ ys)"
  proof
    assume h: "distinct (map todo_id ?ts) \<and> i \<in> todo_id ` set ?ts"
    then obtain xs t ys where
      k: "?ts = xs @ t # ys" "todo_id t = i" "i \<notin> todo_id ` set xs"
         "filter (\<lambda>t. todo_id t \<noteq> i) ?ts = xs @ ys"
      using filter_unique by blast
    have "length ?ts = Suc (length (xs @ ys))" by (simp add: k(1))
    then show "Suc (length (shownTodos (removeItem i inst))) = length ?ts
        \<and> (\<exists>xs t ys. ?ts = xs @ t # ys \<and> todo_id t = i \<and> i \<notin> todo_id ` set xs
              \<and> shownTodos (removeItem i inst) = xs @ ys)"
      using k a by auto
  qed
  from a b c show ?thesis by blast
qed


text \<open>The amended C2 at a list of two records, for a present and for an absent identifier.\<close>

theorem removeItem_removes_all_matching_witness:
  "distinct (map todo_id (shownTodos
      (addItems [(''buy milk'', ''0.4fzyo82mvyr''), (''walk dog'', ''0.9xk2'')] mountTodo)))
   \<and> ''_4fzyo82mv'' \<in> todo_id ` set (shownTodos
      (addItems [(''buy milk'', ''0.4fzyo82mvyr''), (''walk dog'', ''0.9xk2'')] mountTodo))
   \<and> shownTodos (removeItem ''_4fzyo82mv''
      (addItems [(''buy milk'', ''0.4fzyo82mvyr''), (''walk dog'', ''0.9xk2'')] mountTodo))
       = [\<lparr>todo_text = ''walk dog'', todo_id = ''_9xk2''\<rparr>]
   \<and> Suc (length (shownTodos (removeItem ''_4fzyo82mv''
      (addItems [(''buy milk'', ''0.4fzyo82mvyr''), (''walk dog'', ''0.9xk2'')] mountTodo))))
       = length (shownTodos
      (addItems [(''buy milk'', ''0.4fzyo82mvyr''), (''walk dog'', ''0.9xk2'')] mountTodo))
   \<and> ''_zz'' \<notin> todo_id ` set (shownTodos
      (addItems [(''buy milk'', ''0.4fzyo82mvyr''), (''walk dog'', ''0.9xk2'')] mountTodo))
   \<and> shownTodos (removeItem ''_zz''
      (addItems [(''buy milk'', ''0.4fzyo82mvyr''), (''walk dog'', ''0.9xk2'')] mountTodo))
       = shownTodos
      (addItems [(''buy milk'', ''0.4fzyo82mvyr''), (''walk dog'', ''0.9xk2'')] mountTodo)"
  using removeItem_removes_all_matching [of "''_4fzyo82mv''"
      "addItems [(''buy milk'', ''0.4fzyo82mvyr''), (''walk dog'', ''0.9xk2'')] mountTodo"]
    removeItem_removes_all_matching [of "''_zz''"
      "addItems [(''buy milk'', ''0.4fzyo82mvyr''), (''walk dog'', ''0.9xk2'')] mountTodo"]
  by (simp add: shownTodos_addItems shownTodos_mountTodo generateId_def substr_def)

text \<open>
  C4, as stated, fails when the random source returns the same draw twice: both records
  carry the same identifier, and removing the identifier of the first record does not
  leave the second one.
\<close>

theorem addItems_collision_counterexample:
  "trim ''buy milk'' \<noteq> [] \<and> trim ''walk dog'' \<noteq> []
   \<and> shownTodos (addItems [(''buy milk'', ''0.i''), (''walk dog'', ''0.i'')] mountTodo)
       = [\<lparr>todo_text = ''buy milk'', todo_id = ''_i''\<rparr>,
          \<lparr>todo_text = ''walk dog'', todo_id = ''_i''\<rparr>]
   \<and> \<not> distinct (map todo_id
        (shownTodos (addItems [(''buy milk'', ''0.i''), (''walk dog'', ''0.i'')] mountTodo)))
   \<and> shownTodos (removeItem ''_i''
        (addItems [(''buy milk'', ''0.i''), (''walk dog'', ''0.i'')] mountTodo))
       \<noteq> [\<lparr>todo_text = ''walk dog'', todo_id = ''_i''\<rparr>]"
  by (simp add: shownTodos_removeItem shownTodos_addItems shownTodos_mountTodo generateId_def
      substr_def trim_def isWhiteSpace_def)

text \<open>
  C4, amended: starting from the empty list, a sequence of additions yields one record
  for each call, in call order, each with the text of its call and the identifier
  generated from its draw. The identifiers are distinct whenever the generated
  identifiers of the draws are. In particular, adding buy milk and then walk dog with
  different identifiers yields these two records in this order, and removing the
  identifier of buy milk then leaves walk dog alone.
\<close>

theorem addItems_in_call_order:
  "shownTodos (addItems calls mountTodo)
     = map (\<lambda>(t, r). \<lparr>todo_text = t, todo_id = generateId r\<rparr>) calls
   \<and> length (shownTodos (addItems calls mountTodo)) = length calls
   \<and> map todo_text (shownTodos (addItems calls mountTodo)) = map fst calls
   \<and> (distinct (map (\<lambda>c. generateId (snd c)) calls) \<longrightarrow>
        distinct (map todo_id (shownTodos (addItems calls mountTodo))))
   \<and> (generateId r1 \<noteq> generateId r2 \<longrightarrow>
        shownTodos (addItems [(''buy milk'', r1), (''walk dog'', r2)] mountTodo)
          = [\<lparr>todo_text = ''buy milk'', todo_id = generateId r1\<rparr>,
             \<lparr>todo_text = ''walk dog'', todo_id = generateId r2\<rparr>]
        \<and> shownTodos (removeItem (generateId r1)
             (addItems [(''buy milk'', r1), (''walk dog'', r2)] mountTodo))
          = [\<lparr>todo_text = ''walk dog'', todo_id = generateId r2\<rparr>])"
proof -
  let ?rec = "\<lambda>(t, r). \<lparr>todo_text = t, todo_id = generateId r\<rparr>"
  have a: "shownTodos (addItems calls mountTodo) = map ?rec calls" for calls
    by (simp add: shownTodos_addItems shownTodos_mountTodo)
  have t: "map todo_text (map ?rec calls) = map fst calls"
    by (induction calls) auto
  have i: "map todo_id (map ?rec calls) = map (\<lambda>c. generateId (snd c)) calls"
    by (induction calls) auto
  have e: "generateId r1 \<noteq> generateId r2 \<longrightarrow>
        shownTodos (removeItem (generateId r1)
             (addItems [(''buy milk'', r1), (''walk dog'', r2)] mountTodo))
          = [\<lparr>todo_text = ''walk dog'', todo_id = generateId r2\<rparr>]"
    by (simp add: shownTodos_removeItem a)
  have c2: "length (shownTodos (addItems calls mountTodo)) = length calls"
    by (simp add: a)
  have c3: "map todo_text (shownTodos (addItems calls mountTodo)) = map fst calls"
    unfolding a by (rule t)
  have c4: "distinct (map (\<lambda>c. generateId (snd c)) calls) \<longrightarrow>
        distinct (map todo_id (shownTodos (addItems calls mountTodo)))"
    unfolding a i by simp
  have c5: "shownTodos (addItems [(''buy milk'', r1), (''walk dog'', r2)] mountTodo)
          = [\<lparr>todo_text = ''buy milk'', todo_id = generateId r1\<rparr>,
             \<lparr>todo_text = ''walk dog'', todo_id = generateId r2\<rparr>]"
    by (simp add: a)
  from a [of calls] c2 c3 c4 c5 e show ?thesis
    by blast
qed

text \<open>The amended C4 at two draws with different identifiers.\<close>

theorem addItems_in_call_order_witness:
  "distinct (map (\<lambda>c. generateId (snd c))
      [(''buy milk'', ''0.4fzyo82mvyr''), (''walk dog'', ''0.9xk2'')])
   \<and> generateId ''0.4fzyo82mvyr'' \<noteq> generateId ''0.9xk2''
   \<and> shownTodos (addItems [(''buy milk'', ''0.4fzyo82mvyr''), (''walk dog'', ''0.9xk2'')] mountTodo)
       = [\<lparr>todo_text = ''buy milk'', todo_id = ''_4fzyo82mv''\<rparr>,
          \<lparr>todo_text = ''walk dog'', todo_id = ''_9xk2''\<rparr>]
   \<and> distinct (map todo_id (shownTodos
        (addItems [(''buy milk'', ''0.4fzyo82mvyr''), (''walk dog'', ''0.9xk2'')] mountTodo)))
   \<and> shownTodos (removeItem (generateId ''0.4fzyo82mvyr'')
        (addItems [(''buy milk'', ''0.4fzyo82mvyr''), (''walk dog'', ''0.9xk2'')] mountTodo))
       = [\<lparr>todo_text = ''walk dog'', todo_id = ''_9xk2''\<rparr>]"
proof -
  have d: "distinct (map (\<lambda>c. generateId (snd c))
      [(''buy milk'', ''0.4fzyo82mvyr''), (''walk dog'', ''0.9xk2'')])"
    by (simp add: generateId_def substr_def)
  have n: "generateId ''0.4fzyo82mvyr'' \<noteq> generateId ''0.9xk2''"
    by (simp add: generateId_def substr_def)
  show ?thesis
    using d n addItems_in_call_order
      [of "[(''buy milk'', ''0.4fzyo82mvyr''), (''walk dog'', ''0.9xk2'')]"
        "''0.4fzyo82mvyr''" "''0.9xk2''"]
    by (simp add: generateId_def substr_def)
qed

section \<open>Properties of the hover hook\<close>

lemma nextHovering_setHovering: "nextHovering (setHovering b inst) = b"
  by (simp add: nextHovering_def renderHover_def useHover_def commitHover_def setHovering_def
      commitCell_requestUpdate)

lemma attrsOf_handlers:
  "onMouseOver (attrsOf inst) = setHovering True \<and> onMouseOut (attrsOf inst) = setHovering False"
  by (simp add: attrsOf_def renderHover_def useHover_def)

lemma nextHovering_mountHover: "nextHovering mountHover = False"
  by (simp add: nextHovering_def renderHover_def useHover_def commitHover_def mountHover_def
      mountCell_def commitCell_def)

lemma nextHovering_render: "nextHovering (fst (renderHover inst)) = nextHovering inst"
  by (simp add: nextHovering_def renderHover_def useHover_def commitHover_def commitCell_idem)

text \<open>
  C5: the hovering value starts as false; after the enter handler returned by a pass is
  invoked, the next pass reports true; after the leave handler, false; and two enters in
  a row, with or without a pass between them, still give true.
\<close>

theorem hover_enter_leave:
  "nextHovering mountHover = False
   \<and> nextHovering (onMouseOver (attrsOf inst) inst') = True
   \<and> nextHovering (onMouseOut (attrsOf inst) inst') = False
   \<and> nextHovering (onMouseOver (attrsOf inst) (onMouseOver (attrsOf inst) inst')) = True
   \<and> nextHovering (hoverStep MouseOver (hoverStep Render (hoverStep MouseOver inst'))) = True"
  by (simp add: nextHovering_setHovering attrsOf_handlers nextHovering_mountHover)

lemma dispatch_other: "fst e \<noteq> j \<Longrightarrow> dispatch sys e j = sys j"
  by (simp add: dispatch_def split: option.splits)

lemma dispatch_same:
  "dispatch sys (j, ev) j = map_option (hoverStep ev) (sys j)"
  by (simp add: dispatch_def split: option.splits)

lemma runEvents_local:
  "runEvents sys es j = map_option (\<lambda>inst. foldl (\<lambda>i ev. hoverStep ev i) inst (eventsOf j es)) (sys j)"
proof (induction es arbitrary: sys)
  case Nil
  show ?case by (simp add: runEvents_def eventsOf_def option.map_ident)
next
  case (Cons e es)
  have step: "runEvents sys (e # es) = runEvents (dispatch sys e) es"
    by (simp add: runEvents_def)
  show ?case
  proof (cases "fst e = j")
    case True
    then have e: "e = (j, snd e)" by (cases e) simp
    have "dispatch sys e j = map_option (hoverStep (snd e)) (sys j)"
      using dispatch_same [of sys j "snd e"] e by simp
    then show ?thesis
      using True by (simp add: step Cons.IH eventsOf_def option.map_comp comp_def)
  next
    case False
    then show ?thesis
      by (simp add: step Cons.IH eventsOf_def dispatch_other)
  qed
qed

text \<open>
  C6: what an instance reports depends on its own events only. Two runs of the same
  mounted instances whose event sequences agree on the events of instance \<open>j\<close>,
  and differ in any way on the events of the others, leave instance \<open>j\<close> in the
  same state and with the same reported hovering value.
\<close>

theorem hover_instances_isolated:
  "eventsOf j es = eventsOf j es' \<longrightarrow>
     runEvents sys es j = runEvents sys es' j
     \<and> observeHovering (runEvents sys es) j = observeHovering (runEvents sys es') j"
  by (simp add: runEvents_local observeHovering_def)

text \<open>
  C6 at two mounted instances: the runs differ in the events of instance 0, whose value
  differs between them, and agree on instance 1, whose value is the same.
\<close>

theorem hover_instances_isolated_witness:
  "eventsOf 1 [(0, MouseOver), (1, MouseOver), (0, Render)] = eventsOf 1 [(1, MouseOver), (0, MouseOut)]
   \<and> observeHovering (runEvents [0 \<mapsto> mountHover, 1 \<mapsto> mountHover]
         [(0, MouseOver), (1, MouseOver), (0, Render)]) 1
       = observeHovering (runEvents [0 \<mapsto> mountHover, 1 \<mapsto> mountHover]
         [(1, MouseOver), (0, MouseOut)]) 1
   \<and> observeHovering (runEvents [0 \<mapsto> mountHover, 1 \<mapsto> mountHover]
         [(0, MouseOver), (1, MouseOver), (0, Render)]) 1 = Some True
   \<and> observeHovering (runEvents [0 \<mapsto> mountHover, 1 \<mapsto> mountHover]
         [(0, MouseOver), (1, MouseOver), (0, Render)]) 0 = Some True
   \<and> observeHovering (runEvents [0 \<mapsto> mountHover, 1 \<mapsto> mountHover]
         [(1, MouseOver), (0, MouseOut)]) 0 = Some False"
proof -
  have h: "eventsOf 1 [(0, MouseOver), (1, MouseOver), (0, Render)]
      = eventsOf 1 [(1, MouseOver), (0::nat, MouseOut)]"
    by (simp add: eventsOf_def)
  show ?thesis
    using h hover_instances_isolated [of 1 "[(0, MouseOver), (1, MouseOver), (0, Render)]"
        "[(1, MouseOver), (0, MouseOut)]" "[0 \<mapsto> mountHover, 1 \<mapsto> mountHover]"]
    by (simp add: runEvents_local observeHovering_def eventsOf_def nextHovering_setHovering
        attrsOf_handlers nextHovering_render)
qed


section \<open>Properties of the theme component\<close>

lemma commitCell_two_values:
  "v = a \<or> v = b \<Longrightarrow> set us \<subseteq> {Value a, Value b} \<Longrightarrow>
   foldl applyUpdate v us = a \<or> foldl applyUpdate v us = b"
  by (induction us rule: rev_induct) auto

lemma themeOk_render:
  assumes "current (theme_cell inst) = ''light'' \<or> current (theme_cell inst) = ''dark''"
    and "set (pending (theme_cell inst)) \<subseteq> {Value ''light'', Value ''dark''}"
  shows "themeOk (renderTheme inst)"
proof -
  have "foldl applyUpdate (current (theme_cell inst)) (pending (theme_cell inst)) = ''light''
      \<or> foldl applyUpdate (current (theme_cell inst)) (pending (theme_cell inst)) = ''dark''"
    using assms by (rule commitCell_two_values)
  then show ?thesis
    by (auto simp: themeOk_def renderTheme_def Theme_def commitTheme_def commitCell_def
        otherTheme_def Let_def)
qed

lemma themeOk_mount: "themeOk (renderTheme mountTheme)"
  by (rule themeOk_render) (simp_all add: mountTheme_def mountCell_def)

lemma themeOk_step: "themeOk ui \<Longrightarrow> themeOk (themeStep ui e)"
proof (cases e)
  case Click
  assume "themeOk ui"
  then show ?thesis
    using Click by (auto simp: themeOk_def setTheme_def requestUpdate_def otherTheme_def)
next
  case Rerender
  assume "themeOk ui"
  then have "themeOk (renderTheme (theme_inst ui))"
    by (intro themeOk_render) (simp_all add: themeOk_def)
  then show ?thesis using Rerender by simp
qed

lemma themeOk_after: "themeOk (themeAfter es)"
  unfolding themeAfter_def
  by (induction es rule: rev_induct) (simp_all add: themeOk_mount themeOk_step)

lemma click_then_render:
  "themeOk ui \<Longrightarrow>
   className (themeStep (themeStep ui Click) Rerender) = otherTheme (className ui)"
  by (simp add: themeOk_def renderTheme_def Theme_def commitTheme_def setTheme_def
      commitCell_requestUpdate Let_def)

text \<open>
  C10: the theme cell starts as light, and after any sequence of clicks and render
  passes the cell and every queued request hold light or dark, and the class name on the
  screen is the value of the cell. A click followed by a pass leaves the cell with the
  other of the two names than it held before.
\<close>

theorem theme_light_or_dark:
  "className (themeAfter []) = ''light''
   \<and> (current (theme_cell (theme_inst (themeAfter es))) = ''light''
        \<or> current (theme_cell (theme_inst (themeAfter es))) = ''dark'')
   \<and> set (pending (theme_cell (theme_inst (themeAfter es)))) \<subseteq> {Value ''light'', Value ''dark''}
   \<and> className (themeAfter es) = current (theme_cell (theme_inst (themeAfter es)))
   \<and> className (themeAfter (es @ [Click, Rerender])) = otherTheme (className (themeAfter es))
   \<and> otherTheme (className (themeAfter es)) \<noteq> className (themeAfter es)"
proof -
  have ok: "themeOk (themeAfter es)" by (rule themeOk_after)
  have m: "className (themeAfter []) = ''light''"
    by (simp add: themeAfter_def renderTheme_def Theme_def commitTheme_def mountTheme_def
        mountCell_def commitCell_def)
  have f: "themeAfter (es @ [Click, Rerender]) = themeStep (themeStep (themeAfter es) Click) Rerender"
    by (simp add: themeAfter_def)
  have c: "className (themeAfter (es @ [Click, Rerender])) = otherTheme (className (themeAfter es))"
    unfolding f using ok by (rule click_then_render)
  have d: "otherTheme (className (themeAfter es)) \<noteq> className (themeAfter es)"
    by (simp add: otherTheme_def)
  from ok m c d show ?thesis
    unfolding themeOk_def by blast
qed


section \<open>Properties of the slot store\<close>




















section \<open>Properties of the render scheduler\<close>

lemma scheduleRender_twice: "scheduleRender i (scheduleRender i s) = scheduleRender i s"
  by (simp add: scheduleRender_def Let_def)

lemma scheduleRender_inFlight: "inFlight (fold scheduleRender js s) = inFlight s"
  by (induction js arbitrary: s) (simp_all add: scheduleRender_def Let_def)

lemma scheduleRender_passes: "passes (fold scheduleRender js s) = passes s"
  by (induction js arbitrary: s) (simp_all add: scheduleRender_def Let_def)

lemma queued_once:
  "count_list (queued s) i \<le> 1 \<Longrightarrow> inFlight s \<noteq> Some i \<Longrightarrow>
   count_list (queued (fold scheduleRender js s)) i
     = (if i \<in> set js \<or> i \<in> set (queued s) then 1 else 0)"
proof (induction js arbitrary: s)
  case Nil
  have "i \<in> set (queued s) \<longleftrightarrow> count_list (queued s) i \<noteq> 0"
    by (simp add: count_list_0_iff)
  with Nil.prems(1) show ?case
    by auto
next
  case (Cons j js)
  have a: "count_list (queued (scheduleRender j s)) i \<le> 1"
    using Cons.prems(1) by (auto simp: scheduleRender_def Let_def count_list_0_iff)
  have b: "inFlight (scheduleRender j s) \<noteq> Some i"
    using Cons.prems(2) by (simp add: scheduleRender_def Let_def)
  have c: "i \<in> set (queued (scheduleRender j s)) \<longleftrightarrow> i = j \<or> i \<in> set (queued s)"
    using Cons.prems(2) by (auto simp: scheduleRender_def Let_def)
  show ?case
    using Cons.IH [OF a b] c by auto
qed

lemma runQueued_passes:
  "passes (fold runQueuedPass q s) i = passes s i + count_list q i"
  by (induction q arbitrary: s) (simp_all add: runQueuedPass_def Let_def)

lemma runQueued_dirty:
  "dirty (fold runQueuedPass q s) = dirty s - set q"
  by (induction q arbitrary: s) (auto simp: runQueuedPass_def Let_def)

lemma runQueued_rest:
  "queued (fold runQueuedPass q s) = queued s
   \<and> inFlight (fold runQueuedPass q s) = (if q = [] then inFlight s else None)"
  by (induction q arbitrary: s) (simp_all add: runQueuedPass_def Let_def)

text \<open>
  C7: when a clean instance is scheduled two or more times before the turn runs, among
  any calls for other instances, it is queued exactly once, the turn runs exactly one
  pass for it and leaves it clean; a second call right after a first changes nothing.
\<close>

theorem scheduleRender_coalesces:
  "(clean i s \<and> 2 \<le> count_list js i \<longrightarrow>
      count_list (queued (fold scheduleRender js s)) i = 1
      \<and> passes (runTurn (fold scheduleRender js s)) i = passes s i + 1
      \<and> clean i (runTurn (fold scheduleRender js s)))
   \<and> scheduleRender i (scheduleRender i s) = scheduleRender i s"
proof (intro conjI impI)
  assume h: "clean i s \<and> 2 \<le> count_list js i"
  then have m: "i \<in> set js"
    by (metis count_list_0_iff not_numeral_le_zero)
  have z: "count_list (queued s) i \<le> 1" and nf: "inFlight s \<noteq> Some i"
    using h by (simp_all add: clean_def)
  show q: "count_list (queued (fold scheduleRender js s)) i = 1"
    using queued_once [OF z nf, of js] m by simp
  show "passes (runTurn (fold scheduleRender js s)) i = passes s i + 1"
    by (simp add: runTurn_def runQueued_passes q scheduleRender_passes)
  have "i \<in> set (queued (fold scheduleRender js s))"
    using q by (metis count_list_0_iff zero_neq_one)
  then show "clean i (runTurn (fold scheduleRender js s))"
    by (auto simp: clean_def runTurn_def runQueued_dirty runQueued_rest)
next
  show "scheduleRender i (scheduleRender i s) = scheduleRender i s"
    by (rule scheduleRender_twice)
qed

text \<open>C7 at an idle scheduler and three calls for instance 3.\<close>

theorem scheduleRender_coalesces_witness:
  "clean 3 idleScheduler \<and> 2 \<le> count_list [3, 3, 3] (3::nat)
   \<and> queued (fold scheduleRender [3, 3, 3] idleScheduler) = [3]
   \<and> passes (runTurn (fold scheduleRender [3, 3, 3] idleScheduler)) 3 = 1
   \<and> clean 3 (runTurn (fold scheduleRender [3, 3, 3] idleScheduler))"
proof -
  have c: "clean 3 idleScheduler"
    by (simp add: clean_def idleScheduler_def)
  have n: "2 \<le> count_list [3, 3, 3] (3::nat)"
    by simp
  have q: "queued (fold scheduleRender [3, 3, 3] idleScheduler) = [3]"
    by (simp add: scheduleRender_def idleScheduler_def Let_def)
  have p: "passes idleScheduler 3 = 0"
    by (simp add: idleScheduler_def)
  have t: "passes (runTurn (fold scheduleRender [3, 3, 3] idleScheduler)) 3
        = passes idleScheduler 3 + 1"
    and k: "clean 3 (runTurn (fold scheduleRender [3, 3, 3] idleScheduler))"
    using c n scheduleRender_coalesces [of 3 idleScheduler "[3, 3, 3]"]
    by blast+
  have t': "passes (runTurn (fold scheduleRender [3, 3, 3] idleScheduler)) 3 = 1"
    unfolding t by (simp add: p)
  from c n q t' k show ?thesis
    by blast
qed

end
